theory Spec2Isabelle
  imports Main "HOL-Library.Sublist" "HOL-Library.Multiset"
begin

section \<open>The rule engine of the bundler (steps/rules.js)\<close>

text \<open>
  A shallow embedding of \<^verbatim>\<open>src/packages/liferay-npm-bundler/src/steps/rules.js\<close>.
  JavaScript values are restricted to the three kinds the engine tells apart
  (\<^verbatim>\<open>undefined\<close>, \<^verbatim>\<open>null\<close>, a string); objects mutated in place are passed
  and returned explicitly; a promise is represented by the way it settles.
\<close>

subsection \<open>Values, errors and promises\<close>

datatype jsval = Undefined | Null | Str string

text \<open>\<^verbatim>\<open>v == undefined\<close> (loose equality) holds of \<^verbatim>\<open>undefined\<close> and of \<^verbatim>\<open>null\<close>.\<close>

fun looseUndefined :: "jsval \<Rightarrow> bool" where
  "looseUndefined Undefined = True"
| "looseUndefined Null = True"
| "looseUndefined (Str s) = False"

record js_error =
  message :: string

text \<open>
  How a call that returns a promise ends: it throws before returning (\<open>Thrown\<close>), or the
  promise it returns is rejected, is fulfilled, or never settles.
\<close>

datatype 'a promise = Thrown js_error | Rejected js_error | Resolved 'a | Pending

text \<open>
  \<^verbatim>\<open>p.then(cb)\<close> where \<open>cb\<close> ends as given: an exception thrown inside the callback
  rejects the promise that \<^verbatim>\<open>then\<close> returned.
\<close>

fun thenCallback :: "'a promise \<Rightarrow> 'a promise" where
  "thenCallback (Thrown e) = Rejected e"
| "thenCallback (Rejected e) = Rejected e"
| "thenCallback (Resolved v) = Resolved v"
| "thenCallback Pending = Pending"

subsection \<open>File context and loaders\<close>

datatype log_level = Info | Warn | Error

text \<open>
  Modelled from the spec: the class PluginLogger (package liferay-npm-build-tools-common)
  is not among the sources. The spec describes it as an append-only sink of
  (source tag, message) entries; \<^verbatim>\<open>log.info(source, msg)\<close> appends one informational
  entry.
\<close>

type_synonym log_entry = "log_level \<times> string \<times> string"

definition logInfo :: "log_entry list \<Rightarrow> string \<Rightarrow> string \<Rightarrow> log_entry list" where
  "logInfo lg source msg = lg @ [(Info, source, msg)]"

text \<open>
  The context object of \<^verbatim>\<open>processFile\<close>. \<open>extraArtifacts\<close> is a JavaScript object;
  it is kept as the list of its entries in the order \<^verbatim>\<open>Object.entries\<close> yields them.
\<close>

record file_context =
  content :: jsval
  filePath :: string
  extraArtifacts :: "(string \<times> jsval) list"
  log :: "log_entry list"

text \<open>
  What \<^verbatim>\<open>loader.exec(context, loader.options)\<close> does: it throws, returns a plain value,
  or returns a promise that is fulfilled, is rejected or never settles.
\<close>

datatype exec_result =
  Throws js_error | Returns jsval | Fulfils jsval | Rejects js_error | Hangs

text \<open>
  A loader descriptor. \<open>exec\<close> receives the context object and may mutate it: it returns
  the context as it stands when the loader's result has settled.
\<close>

record 'o loader =
  use :: string
  exec :: "file_context \<Rightarrow> 'o \<Rightarrow> exec_result \<times> file_context"
  options :: 'o

subsection \<open>runLoaders\<close>

text \<open>The message of the catch block: \<^verbatim>\<open>`Loader '${loader.use}' failed: ${err.message}`\<close>.\<close>

definition failedMessage :: "string \<Rightarrow> string \<Rightarrow> string" where
  "failedMessage u m = ''Loader '' @ [CHR 39] @ u @ [CHR 39] @ '' failed: '' @ m"

text \<open>
  \<^verbatim>\<open>runLoaders(loaders, firstLoaderIndex, context)\<close>. The result is the way the call
  ends, the context object as the run leaves it, and the calls of \<^verbatim>\<open>loader.exec\<close> made,
  in order: the index of the loader and the context it was given.
\<close>

function runLoaders ::
  "'o loader list \<Rightarrow> nat \<Rightarrow> file_context \<Rightarrow> jsval promise \<times> file_context \<times> (nat \<times> file_context) list"
where
  "runLoaders loaders firstLoaderIndex ctx =
     (if firstLoaderIndex \<ge> length loaders then (Resolved (content ctx), ctx, [])
      else
        let ldr = loaders ! firstLoaderIndex in
        (case exec ldr ctx (options ldr) of
           (Throws err, ctx') \<Rightarrow>
             (Thrown (err\<lparr>message := failedMessage (use ldr) (message err)\<rparr>), ctx',
              [(firstLoaderIndex, ctx)])
         | (Rejects err, ctx') \<Rightarrow> (Rejected err, ctx', [(firstLoaderIndex, ctx)])
         | (Hangs, ctx') \<Rightarrow> (Pending, ctx', [(firstLoaderIndex, ctx)])
         | (Returns v, ctx') \<Rightarrow>
             (case runLoaders loaders (firstLoaderIndex + 1)
                     (if v \<noteq> Undefined then ctx'\<lparr>content := v\<rparr> else ctx') of
                (r, c, calls) \<Rightarrow> (thenCallback r, c, (firstLoaderIndex, ctx) # calls))
         | (Fulfils v, ctx') \<Rightarrow>
             (case runLoaders loaders (firstLoaderIndex + 1)
                     (if v \<noteq> Undefined then ctx'\<lparr>content := v\<rparr> else ctx') of
                (r, c, calls) \<Rightarrow> (thenCallback r, c, (firstLoaderIndex, ctx) # calls))))"
  by pat_completeness auto
termination
  by (relation "measure (\<lambda>(loaders, i, ctx). length loaders - i)") auto

subsection \<open>The project, the packages and the outside world\<close>

text \<open>A package descriptor (PkgDesc), with the attributes the rule step reads.\<close>

record pkg_desc =
  pkgId :: string
  dir :: string
  isRoot :: bool
  clean :: bool

text \<open>\<^verbatim>\<open>srcPkg.clone({dir: d})\<close>: the same package with another directory.\<close>

definition clone :: "pkg_desc \<Rightarrow> string \<Rightarrow> pkg_desc" where
  "clone p d = p\<lparr>dir := d\<rparr>"

datatype fs_op = EnsureDir string | WriteFile string jsval

text \<open>
  Everything the rule step does to its surroundings, as logs of the calls made:
  \<open>fsops\<close> the calls of \<^verbatim>\<open>fs.ensureDirSync\<close> and \<^verbatim>\<open>fs.writeFileSync\<close>,
  \<open>reports\<close> the calls of \<^verbatim>\<open>report.rulesRun\<close>, \<open>debugLog\<close> the messages given to
  \<^verbatim>\<open>log.debug\<close>, and \<open>lookups\<close> the paths \<^verbatim>\<open>project.rules.loadersForFile\<close> was asked
  for (one for every file \<^verbatim>\<open>processFile\<close> is started on). File system calls are taken
  to succeed, and a loader acts on nothing but the context object it is given.
\<close>

record world =
  fsops :: "fs_op list"
  reports :: "(string \<times> log_entry list) list"
  debugLog :: "string list"
  lookups :: "string list"

text \<open>
  The ambient state the module reads (\<^verbatim>\<open>project\<close>, \<^verbatim>\<open>config\<close>), the functions of
  Node's \<^verbatim>\<open>path\<close> and \<^verbatim>\<open>fs\<close> modules it calls, and the helpers it imports from
  \<^verbatim>\<open>./util\<close> and \<^verbatim>\<open>globs\<close>, none of which is among the sources: they are parameters.
  \<open>runInChunks\<close> receives the per-file operation as a function on the world.
\<close>

record 'o project =
  projectDir :: string
  sources :: "string list"
  sourcesAsPlatform :: "string list"
  pathSep :: string
  pathJoin :: "string list \<Rightarrow> string"
  pathRelative :: "string \<Rightarrow> string \<Rightarrow> string"
  pathDirname :: "string \<Rightarrow> string"
  readFileSync :: "string \<Rightarrow> string"
  loadersForFile :: "string \<Rightarrow> 'o loader list"
  findFiles :: "string \<Rightarrow> string list \<Rightarrow> string list"
  glPrefix :: "string \<Rightarrow> string list \<Rightarrow> string list"
  getDestDir :: "pkg_desc \<Rightarrow> string"
  getMaxParallelFiles :: nat
  runInChunks ::
    "string list \<Rightarrow> nat \<Rightarrow> nat \<Rightarrow> (string \<Rightarrow> world \<Rightarrow> unit promise \<times> world) \<Rightarrow>
     world \<Rightarrow> unit promise \<times> world"

subsection \<open>stripSourceDir and writeRuleFile\<close>

text \<open>
  \<^verbatim>\<open>stripSourceDir(pkgFile)\<close>, with \<^verbatim>\<open>project.sources.asPlatform\<close> and \<^verbatim>\<open>path.sep\<close>
  as arguments. The loop returns at the first source whose prefix matches.
\<close>

fun stripSourceDir :: "string list \<Rightarrow> string \<Rightarrow> string \<Rightarrow> string" where
  "stripSourceDir [] sep pkgFile = pkgFile"
| "stripSourceDir (source # rest) sep pkgFile =
     (if prefix (source @ sep) pkgFile then drop (length (source @ sep)) pkgFile
      else stripSourceDir rest sep pkgFile)"

text \<open>The two file system calls of \<^verbatim>\<open>writeRuleFile\<close> for the absolute path \<open>absFile\<close>.\<close>

definition writeOps :: "'o project \<Rightarrow> string \<Rightarrow> jsval \<Rightarrow> fs_op list" where
  "writeOps prj absFile c = [EnsureDir (pathDirname prj absFile), WriteFile absFile c]"

definition writeRuleFile ::
  "'o project \<Rightarrow> pkg_desc \<Rightarrow> string \<Rightarrow> jsval \<Rightarrow> world \<Rightarrow> world"
where
  "writeRuleFile prj destPkg pkgFile c w =
     (let pkgFile' =
            (if isRoot destPkg
             then stripSourceDir (sourcesAsPlatform prj) (pathSep prj) pkgFile
             else pkgFile);
          absFile = pathJoin prj [projectDir prj, dir destPkg, pkgFile']
      in w\<lparr>fsops := fsops w @ writeOps prj absFile c\<rparr>)"

subsection \<open>writeLoadersResult\<close>

text \<open>\<^verbatim>\<open>path.relative(srcPkg.dir, path.join(project.dir, prjFile))\<close>.\<close>

definition pkgRelative :: "'o project \<Rightarrow> pkg_desc \<Rightarrow> string \<Rightarrow> string" where
  "pkgRelative prj srcPkg prjFile =
     pathRelative prj (dir srcPkg) (pathJoin prj [projectDir prj, prjFile])"

definition extraArtifactMessage :: "string \<Rightarrow> string" where
  "extraArtifactMessage prjExtraFile = ''Rules generated extra artifact: '' @ prjExtraFile"

text \<open>
  The callback of the \<^verbatim>\<open>forEach\<close> over \<^verbatim>\<open>Object.entries(context.extraArtifacts)\<close>; the
  logger it writes to is the one of the context.
\<close>

definition writeExtraArtifact ::
  "'o project \<Rightarrow> pkg_desc \<Rightarrow> pkg_desc \<Rightarrow> file_context \<times> world \<Rightarrow> string \<times> jsval \<Rightarrow>
   file_context \<times> world"
where
  "writeExtraArtifact prj srcPkg destPkg st entry =
     (case (st, entry) of ((ctx, w), (prjExtraFile, c)) \<Rightarrow>
        if looseUndefined c then (ctx, w)
        else (ctx\<lparr>log := logInfo (log ctx) ''liferay-npm-bundler''
                             (extraArtifactMessage prjExtraFile)\<rparr>,
              writeRuleFile prj destPkg (pkgRelative prj srcPkg prjExtraFile) c w))"

definition writeLoadersResult ::
  "'o project \<Rightarrow> pkg_desc \<Rightarrow> pkg_desc \<Rightarrow> file_context \<Rightarrow> world \<Rightarrow> file_context \<times> world"
where
  "writeLoadersResult prj srcPkg destPkg ctx w =
     (let w1 =
            (if \<not> looseUndefined (content ctx)
             then writeRuleFile prj destPkg (pkgRelative prj srcPkg (filePath ctx))
                    (content ctx) w
             else w)
      in foldl (writeExtraArtifact prj srcPkg destPkg) (ctx, w1) (extraArtifacts ctx))"

subsection \<open>processFile\<close>

definition processFile ::
  "'o project \<Rightarrow> pkg_desc \<Rightarrow> pkg_desc \<Rightarrow> string \<Rightarrow> world \<Rightarrow> unit promise \<times> world"
where
  "processFile prj srcPkg destPkg prjSrcFile w =
     (let absFile = pathJoin prj [projectDir prj, prjSrcFile];
          loaders = loadersForFile prj absFile;
          w0 = w\<lparr>lookups := lookups w @ [absFile]\<rparr>
      in if length loaders = 0 then (Resolved (), w0)
         else
           let ctx = \<lparr>content = Str (readFileSync prj absFile), filePath = prjSrcFile,
                      extraArtifacts = [], log = []\<rparr>
           in (case runLoaders loaders 0 ctx of
                 (Thrown e, ctx', calls) \<Rightarrow> (Thrown e, w0)
               | (Rejected e, ctx', calls) \<Rightarrow> (Rejected e, w0)
               | (Pending, ctx', calls) \<Rightarrow> (Pending, w0)
               | (Resolved v, ctx', calls) \<Rightarrow>
                   (case writeLoadersResult prj srcPkg destPkg ctx' w0 of
                      (ctx'', w1) \<Rightarrow>
                        (Resolved (),
                         w1\<lparr>reports := reports w1 @ [(prjSrcFile, log ctx'')]\<rparr>))))"

subsection \<open>processPackage and runRules\<close>

definition sourceGlobs :: "'o project \<Rightarrow> pkg_desc \<Rightarrow> string list" where
  "sourceGlobs prj srcPkg =
     (if isRoot srcPkg then map (\<lambda>source. source @ ''/**/*'') (sources prj) else [''**/*''])"

text \<open>The value of \<^verbatim>\<open>prjSrcFiles\<close> in \<^verbatim>\<open>processPackage\<close>: the files the package is found to have.\<close>

definition prjSrcFiles :: "'o project \<Rightarrow> pkg_desc \<Rightarrow> string list" where
  "prjSrcFiles prj srcPkg =
     (let globs = sourceGlobs prj srcPkg @ [''!node_modules/**/*'']
      in findFiles prj (projectDir prj)
           (glPrefix prj (projectDir prj @ ''/'' @ dir srcPkg @ ''/'') globs))"

definition applyingMessage :: "string \<Rightarrow> string" where
  "applyingMessage i = ''Applying rules to package '' @ [CHR 39] @ i @ [CHR 39] @ ''...''"

definition processPackage :: "'o project \<Rightarrow> pkg_desc \<Rightarrow> world \<Rightarrow> unit promise \<times> world" where
  "processPackage prj srcPkg w =
     (let w0 = w\<lparr>debugLog := debugLog w @ [applyingMessage (pkgId srcPkg)]\<rparr>;
          destPkg = clone srcPkg (getDestDir prj srcPkg)
      in runInChunks prj (prjSrcFiles prj srcPkg) (getMaxParallelFiles prj) 0
           (\<lambda>prjSrcFile. processFile prj srcPkg destPkg prjSrcFile) w0)"

text \<open>A number inside a template literal: its decimal digits.\<close>

definition digitChar :: "nat \<Rightarrow> char" where
  "digitChar d = ''0123456789'' ! d"

fun showNat :: "nat \<Rightarrow> string" where
  "showNat n =
     (if n < 10 then [digitChar n] else showNat (n div 10) @ [digitChar (n mod 10)])"

definition appliedMessage :: "nat \<Rightarrow> string" where
  "appliedMessage n = ''Applied rules to '' @ showNat n @ '' packages''"

text \<open>
  \<^verbatim>\<open>dirtyPkgs.map(srcPkg => processPackage(srcPkg))\<close>: the calls are made in order, each
  on the world the previous one left; a call that throws ends the map. Packages that run
  concurrently are serialised in this order: each package's files are all run before the
  next package is entered. The real run interleaves the files of different packages, so
  of the \<open>lookups\<close> across packages only what was looked up, and how often, is meant, not
  the order.
\<close>

fun mapPackages ::
  "(pkg_desc \<Rightarrow> world \<Rightarrow> unit promise \<times> world) \<Rightarrow> pkg_desc list \<Rightarrow> world \<Rightarrow>
   (js_error + unit promise list) \<times> world"
where
  "mapPackages f [] w = (Inr [], w)"
| "mapPackages f (p # ps) w =
     (case f p w of
        (Thrown e, w1) \<Rightarrow> (Inl e, w1)
      | (r, w1) \<Rightarrow>
          (case mapPackages f ps w1 of
             (Inl e, w2) \<Rightarrow> (Inl e, w2)
           | (Inr rs, w2) \<Rightarrow> (Inr (r # rs), w2)))"

text \<open>
  \<^verbatim>\<open>Promise.all\<close> of promises that end as listed: fulfilled when all are, rejected as
  soon as one is (of several rejections the first of the list is taken), pending otherwise.
\<close>

fun promiseAll :: "'a promise list \<Rightarrow> 'a list promise" where
  "promiseAll [] = Resolved []"
| "promiseAll (Resolved v # rs) =
     (case promiseAll rs of
        Resolved vs \<Rightarrow> Resolved (v # vs)
      | Rejected e \<Rightarrow> Rejected e
      | Thrown e \<Rightarrow> Rejected e
      | Pending \<Rightarrow> Pending)"
| "promiseAll (Rejected e # rs) = Rejected e"
| "promiseAll (Thrown e # rs) = Rejected e"
| "promiseAll (Pending # rs) =
     (case promiseAll rs of
        Rejected e \<Rightarrow> Rejected e
      | Thrown e \<Rightarrow> Rejected e
      | Resolved vs \<Rightarrow> Pending
      | Pending \<Rightarrow> Pending)"

definition runRules ::
  "'o project \<Rightarrow> pkg_desc \<Rightarrow> pkg_desc list \<Rightarrow> world \<Rightarrow> unit promise \<times> world"
where
  "runRules prj rootPkg depPkgs w =
     (let dirtyPkgs = filter (\<lambda>srcPkg. \<not> clean srcPkg) (rootPkg # depPkgs)
      in (case mapPackages (processPackage prj) dirtyPkgs w of
            (Inl e, w1) \<Rightarrow> (Thrown e, w1)
          | (Inr rs, w1) \<Rightarrow>
              (case promiseAll rs of
                 Resolved vs \<Rightarrow>
                   (Resolved (),
                    w1\<lparr>debugLog := debugLog w1 @ [appliedMessage (length dirtyPkgs)]\<rparr>)
               | Rejected e \<Rightarrow> (Rejected e, w1)
               | Thrown e \<Rightarrow> (Rejected e, w1)
               | Pending \<Rightarrow> (Pending, w1))))"

subsection \<open>The statements' vocabulary\<close>

text \<open>The value a loader hands back, if it hands one back (directly or through its promise).\<close>

fun returned :: "exec_result \<Rightarrow> jsval option" where
  "returned (Returns v) = Some v"
| "returned (Fulfils v) = Some v"
| "returned (Throws e) = None"
| "returned (Rejects e) = None"
| "returned Hangs = None"

text \<open>
  The transform of one loader on the context, in the words of the specification: the
  loader runs, and the value it returns replaces \<open>content\<close>, unless it is "no value"
  (\<^verbatim>\<open>undefined\<close>), which leaves \<open>content\<close> as the loader left it.
\<close>

definition loaderTransform :: "file_context \<Rightarrow> 'o loader \<Rightarrow> file_context" where
  "loaderTransform c l =
     (case exec l c (options l) of
        (r, c') \<Rightarrow>
          (case returned r of
             None \<Rightarrow> c'
           | Some Undefined \<Rightarrow> c'
           | Some v \<Rightarrow> c'\<lparr>content := v\<rparr>))"

text \<open>The left-to-right fold of the transforms of the first \<open>i\<close> loaders.\<close>

definition contextAt :: "'o loader list \<Rightarrow> file_context \<Rightarrow> nat \<Rightarrow> file_context" where
  "contextAt loaders ctx i = foldl loaderTransform ctx (take i loaders)"

text \<open>What loader \<open>i\<close> does when it is given the fold of the loaders before it.\<close>

definition execAt :: "'o loader list \<Rightarrow> file_context \<Rightarrow> nat \<Rightarrow> exec_result \<times> file_context" where
  "execAt loaders ctx i = exec (loaders ! i) (contextAt loaders ctx i) (options (loaders ! i))"

text \<open>Two contexts that differ at most in \<open>content\<close>.\<close>

definition sameButContent :: "file_context \<Rightarrow> file_context \<Rightarrow> bool" where
  "sameButContent c c' \<longleftrightarrow>
     filePath c = filePath c' \<and> extraArtifacts c = extraArtifacts c' \<and> log c = log c'"

text \<open>The value of \<^verbatim>\<open>absFile\<close> in \<^verbatim>\<open>writeRuleFile\<close> for a dependency and for a root package.\<close>

definition depFilePath :: "'o project \<Rightarrow> pkg_desc \<Rightarrow> string \<Rightarrow> string" where
  "depFilePath prj destPkg pkgFile = pathJoin prj [projectDir prj, dir destPkg, pkgFile]"

definition rootFilePath :: "'o project \<Rightarrow> pkg_desc \<Rightarrow> string \<Rightarrow> string" where
  "rootFilePath prj destPkg pkgFile =
     pathJoin prj [projectDir prj, dir destPkg,
       stripSourceDir (sourcesAsPlatform prj) (pathSep prj) pkgFile]"

definition ruleFilePath :: "'o project \<Rightarrow> pkg_desc \<Rightarrow> string \<Rightarrow> string" where
  "ruleFilePath prj destPkg pkgFile =
     (if isRoot destPkg then rootFilePath prj destPkg pkgFile
      else depFilePath prj destPkg pkgFile)"

text \<open>What one entry of \<open>extraArtifacts\<close> is to contribute: file system calls and diagnostics.\<close>

fun artifactOps :: "'o project \<Rightarrow> pkg_desc \<Rightarrow> pkg_desc \<Rightarrow> string \<times> jsval \<Rightarrow> fs_op list" where
  "artifactOps prj srcPkg destPkg (prjExtraFile, Str s) =
     writeOps prj (ruleFilePath prj destPkg (pkgRelative prj srcPkg prjExtraFile)) (Str s)"
| "artifactOps prj srcPkg destPkg (prjExtraFile, Undefined) = []"
| "artifactOps prj srcPkg destPkg (prjExtraFile, Null) = []"

fun artifactDiagnostics :: "string \<times> jsval \<Rightarrow> log_entry list" where
  "artifactDiagnostics (prjExtraFile, Str s) =
     [(Info, ''liferay-npm-bundler'', ''Rules generated extra artifact: '' @ prjExtraFile)]"
| "artifactDiagnostics (prjExtraFile, Undefined) = []"
| "artifactDiagnostics (prjExtraFile, Null) = []"

text \<open>How a run ends whose loader \<open>i\<close> is the first to fail.\<close>

fun failureOf :: "nat \<Rightarrow> string \<Rightarrow> exec_result \<Rightarrow> jsval promise" where
  "failureOf i u (Throws e) =
     (if i = 0 then Thrown (e\<lparr>message := failedMessage u (message e)\<rparr>)
      else Rejected (e\<lparr>message := failedMessage u (message e)\<rparr>))"
| "failureOf i u (Rejects e) = Rejected e"
| "failureOf i u r = Pending"

text \<open>What the final \<open>content\<close> is to contribute: the file system calls for the primary file.\<close>

fun primaryOps :: "'o project \<Rightarrow> pkg_desc \<Rightarrow> pkg_desc \<Rightarrow> file_context \<Rightarrow> fs_op list" where
  "primaryOps prj srcPkg destPkg ctx =
     (case content ctx of
        Str s \<Rightarrow>
          writeOps prj (ruleFilePath prj destPkg (pkgRelative prj srcPkg (filePath ctx))) (Str s)
      | Undefined \<Rightarrow> []
      | Null \<Rightarrow> [])"

text \<open>
  Modelled from the spec: the function \<^verbatim>\<open>runInChunks\<close> of \<^verbatim>\<open>./util\<close> is not among the
  sources. The spec has it attempt every file exactly once; what is assumed of it here,
  when it is started at offset 0, is that its promise is fulfilled only when the operation
  has been run once on every item. Operations that run concurrently are serialised in the
  order of the list.
\<close>

definition attemptAll ::
  "(string \<Rightarrow> world \<Rightarrow> unit promise \<times> world) \<Rightarrow> string list \<Rightarrow> world \<Rightarrow> world"
where
  "attemptAll operation items w = foldl (\<lambda>w' item. snd (operation item w')) w items"

definition attemptsEveryItem ::
  "(string list \<Rightarrow> nat \<Rightarrow> nat \<Rightarrow> (string \<Rightarrow> world \<Rightarrow> unit promise \<times> world) \<Rightarrow>
    world \<Rightarrow> unit promise \<times> world) \<Rightarrow> bool"
where
  "attemptsEveryItem runner \<longleftrightarrow>
     (\<forall>items n operation w w'.
        runner items n 0 operation w = (Resolved (), w') \<longrightarrow>
        w' = attemptAll operation items w)"

subsection \<open>Example loaders, packages and a project\<close>

definition appendLoader :: "string loader" where
  "appendLoader =
     \<lparr>use = ''append'',
      exec = (\<lambda>c opt. (Returns (case content c of Str t \<Rightarrow> Str (t @ opt) | v \<Rightarrow> v), c)),
      options = ''!''\<rparr>"

text \<open>An asynchronous loader that sets \<^verbatim>\<open>extraArtifacts[options] = 'bar'\<close> and returns no value.\<close>

definition artifactLoader :: "string loader" where
  "artifactLoader =
     \<lparr>use = ''artifact'',
      exec = (\<lambda>c opt. (Fulfils Undefined,
                c\<lparr>extraArtifacts := extraArtifacts c @ [(opt, Str ''bar'')]\<rparr>)),
      options = ''foo.txt''\<rparr>"

definition nullLoader :: "string loader" where
  "nullLoader = \<lparr>use = ''drop'', exec = (\<lambda>c opt. (Returns Null, c)), options = []\<rparr>"

definition silentLoader :: "string loader" where
  "silentLoader = \<lparr>use = ''silent'', exec = (\<lambda>c opt. (Returns Undefined, c)), options = []\<rparr>"

definition throwingLoader :: "string loader" where
  "throwingLoader =
     \<lparr>use = ''thrower'', exec = (\<lambda>c opt. (Throws \<lparr>message = opt\<rparr>, c)), options = ''boom''\<rparr>"

definition rejectingLoader :: "string loader" where
  "rejectingLoader =
     \<lparr>use = ''rejecter'', exec = (\<lambda>c opt. (Rejects \<lparr>message = opt\<rparr>, c)), options = ''boom''\<rparr>"

definition helloContext :: file_context where
  "helloContext =
     \<lparr>content = Str ''hello'', filePath = ''src/index.js'', extraArtifacts = [], log = []\<rparr>"

definition demoRootPkg :: pkg_desc where
  "demoRootPkg = \<lparr>pkgId = ''app@1.0.0'', dir = ''.'', isRoot = True, clean = False\<rparr>"

definition demoDepPkg :: pkg_desc where
  "demoDepPkg =
     \<lparr>pkgId = ''dep@2.0.0'', dir = ''node_modules/dep'', isRoot = False, clean = False\<rparr>"

definition demoCleanPkg :: pkg_desc where
  "demoCleanPkg =
     \<lparr>pkgId = ''old@0.1.0'', dir = ''node_modules/old'', isRoot = False, clean = True\<rparr>"

definition emptyWorld :: world where
  "emptyWorld = \<lparr>fsops = [], reports = [], debugLog = [], lookups = []\<rparr>"

text \<open>Joining path segments with a slash, without normalisation: enough for the examples.\<close>

fun slashJoin :: "string list \<Rightarrow> string" where
  "slashJoin [] = []"
| "slashJoin [p] = p"
| "slashJoin (p # ps) = p @ ''/'' @ slashJoin ps"

definition slashDirname :: "string \<Rightarrow> string" where
  "slashDirname p = rev (tl (dropWhile (\<lambda>c. c \<noteq> CHR ''/'') (rev p)))"

text \<open>A runner that runs the operation on every item in turn and reports the first failure.\<close>

fun firstFailure :: "unit promise list \<Rightarrow> unit promise" where
  "firstFailure [] = Resolved ()"
| "firstFailure (Resolved v # rs) = firstFailure rs"
| "firstFailure (r # rs) = r"

fun serialRunner ::
  "string list \<Rightarrow> nat \<Rightarrow> nat \<Rightarrow> (string \<Rightarrow> world \<Rightarrow> unit promise \<times> world) \<Rightarrow>
   world \<Rightarrow> unit promise \<times> world"
where
  "serialRunner [] n i operation w = (Resolved (), w)"
| "serialRunner (item # items) n i operation w =
     (case operation item w of
        (r, w1) \<Rightarrow>
          (case serialRunner items n i operation w1 of
             (q, w2) \<Rightarrow> (firstFailure [r, q], w2)))"

text \<open>
  A project in \<^verbatim>\<open>/prj\<close> with the source directory \<^verbatim>\<open>src\<close>: two files in the root
  package, one in the dependency; only \<^verbatim>\<open>src/index.js\<close> has loaders.
\<close>

definition demoProject :: "string project" where
  "demoProject =
     \<lparr>projectDir = ''/prj'',
      sources = [''src''],
      sourcesAsPlatform = [''src''],
      pathSep = ''/'',
      pathJoin = slashJoin,
      pathRelative = (\<lambda>from to.
        (let base = (if from = ''.'' then ''/prj/'' else ''/prj/'' @ from @ ''/'')
         in if prefix base to then drop (length base) to else to)),
      pathDirname = slashDirname,
      readFileSync = (\<lambda>p. ''hello''),
      loadersForFile = (\<lambda>p. if p = ''/prj/src/index.js'' then [appendLoader, artifactLoader]
                             else []),
      findFiles = (\<lambda>d globs.
        if globs = [''/prj/./src/**/*'', ''!/prj/./node_modules/**/*'']
        then [''src/index.js'', ''src/readme.txt'']
        else [''node_modules/dep/lib/x.js'']),
      glPrefix = (\<lambda>pre globs.
        map (\<lambda>g. if prefix ''!'' g then ''!'' @ pre @ tl g else pre @ g) globs),
      getDestDir = (\<lambda>p. if isRoot p then ''build'' else ''build/'' @ dir p),
      getMaxParallelFiles = 2,
      runInChunks = serialRunner\<rparr>"

section \<open>Properties\<close>

subsection \<open>The loader pipeline\<close>

declare runLoaders.simps [simp del]
declare showNat.simps [simp del]

lemma runLoaders_done:
  "length loaders \<le> i \<Longrightarrow> runLoaders loaders i ctx = (Resolved (content ctx), ctx, [])"
  by (simp add: runLoaders.simps)

lemma runLoaders_returned:
  assumes "i < length loaders"
    and "exec (loaders ! i) ctx (options (loaders ! i)) = (r, c')"
    and "returned r = Some v"
  shows "runLoaders loaders i ctx =
     (case runLoaders loaders (Suc i) (if v \<noteq> Undefined then c'\<lparr>content := v\<rparr> else c') of
        (q, c, calls) \<Rightarrow> (thenCallback q, c, (i, ctx) # calls))"
  using assms by (cases r) (simp_all add: runLoaders.simps [of loaders i ctx])

lemma loaderTransform_returned:
  assumes "exec l c (options l) = (r, c')" and "returned r = Some v"
  shows "loaderTransform c l = (if v \<noteq> Undefined then c'\<lparr>content := v\<rparr> else c')"
  using assms by (cases v) (simp_all add: loaderTransform_def)

lemma contextAt_0: "contextAt loaders ctx 0 = ctx"
  by (simp add: contextAt_def)

lemma contextAt_Suc:
  "i < length loaders \<Longrightarrow>
   contextAt loaders ctx (Suc i) = loaderTransform (contextAt loaders ctx i) (loaders ! i)"
  by (simp add: contextAt_def take_Suc_conv_app_nth)

lemma runLoaders_fold_from:
  assumes "\<forall>k. i \<le> k \<and> k < length loaders \<longrightarrow> returned (fst (execAt loaders ctx k)) \<noteq> None"
    and "i \<le> length loaders"
  shows "runLoaders loaders i (contextAt loaders ctx i) =
     (Resolved (content (contextAt loaders ctx (length loaders))),
      contextAt loaders ctx (length loaders),
      map (\<lambda>k. (k, contextAt loaders ctx k)) [i..<length loaders])"
  using assms
proof (induction "length loaders - i" arbitrary: i)
  case 0
  then have "i = length loaders" by simp
  then show ?case by (simp add: runLoaders_done)
next
  case (Suc n)
  then have lt: "i < length loaders" by simp
  obtain r c' where ex: "exec (loaders ! i) (contextAt loaders ctx i) (options (loaders ! i)) = (r, c')"
    by (cases "exec (loaders ! i) (contextAt loaders ctx i) (options (loaders ! i))")
  from Suc.prems(1) lt have "returned (fst (execAt loaders ctx i)) \<noteq> None" by simp
  with ex obtain v where v: "returned r = Some v" by (auto simp: execAt_def)
  have next_ctx: "(if v \<noteq> Undefined then c'\<lparr>content := v\<rparr> else c') = contextAt loaders ctx (Suc i)"
    using ex v lt by (simp add: contextAt_Suc loaderTransform_returned)
  have IH: "runLoaders loaders (Suc i) (contextAt loaders ctx (Suc i)) =
     (Resolved (content (contextAt loaders ctx (length loaders))),
      contextAt loaders ctx (length loaders),
      map (\<lambda>k. (k, contextAt loaders ctx k)) [Suc i..<length loaders])"
    using Suc.hyps(1) [of "Suc i"] Suc.hyps(2) Suc.prems lt by simp
  show ?case
    using lt IH by (simp add: runLoaders_returned [OF lt ex v] next_ctx upt_conv_Cons)
qed


text \<open>
  Claim C1. When every loader of the chain hands back a value or "no value" on the context
  it is given, \<^verbatim>\<open>runLoaders(loaders, 0, context)\<close> calls the loaders in the order of
  the chain, loader \<open>i\<close> on the fold of the transforms of the loaders before it, and its
  promise is fulfilled with the \<open>content\<close> of the left-to-right fold of all transforms
  over the initial context; in that fold a step that returns \<^verbatim>\<open>undefined\<close> leaves
  \<open>content\<close> as it is and a step that returns another value replaces it.
\<close>

theorem runLoaders_is_fold:
  assumes "\<forall>i<length loaders. returned (fst (execAt loaders ctx i)) \<noteq> None"
  shows "runLoaders loaders 0 ctx =
           (Resolved (content (foldl loaderTransform ctx loaders)),
            foldl loaderTransform ctx loaders,
            map (\<lambda>i. (i, contextAt loaders ctx i)) [0..<length loaders])
         \<and> contextAt loaders ctx 0 = ctx
         \<and> (\<forall>i r c' v. i < length loaders \<and> execAt loaders ctx i = (r, c') \<and> returned r = Some v \<longrightarrow>
               contextAt loaders ctx (Suc i) = (if v = Undefined then c' else c'\<lparr>content := v\<rparr>))"
proof -
  have whole: "contextAt loaders ctx (length loaders) = foldl loaderTransform ctx loaders"
    by (simp add: contextAt_def)
  have "runLoaders loaders 0 (contextAt loaders ctx 0) =
     (Resolved (content (contextAt loaders ctx (length loaders))),
      contextAt loaders ctx (length loaders),
      map (\<lambda>k. (k, contextAt loaders ctx k)) [0..<length loaders])"
    using assms by (intro runLoaders_fold_from) simp_all
  then have run: "runLoaders loaders 0 ctx =
           (Resolved (content (foldl loaderTransform ctx loaders)),
            foldl loaderTransform ctx loaders,
            map (\<lambda>i. (i, contextAt loaders ctx i)) [0..<length loaders])"
    by (simp add: contextAt_0 whole)
  have step: "contextAt loaders ctx (Suc i) = (if v = Undefined then c' else c'\<lparr>content := v\<rparr>)"
    if "i < length loaders" "execAt loaders ctx i = (r, c')" "returned r = Some v" for i r c' v
    using that by (simp add: contextAt_Suc execAt_def loaderTransform_returned)
  show ?thesis
    using run step by (simp add: contextAt_0)
qed

theorem runLoaders_is_fold_witness:
  "runLoaders [appendLoader, silentLoader, artifactLoader] 0 helloContext =
     (Resolved (Str ''hello!''),
      \<lparr>content = Str ''hello!'', filePath = ''src/index.js'',
       extraArtifacts = [(''foo.txt'', Str ''bar'')], log = []\<rparr>,
      [(0, helloContext),
       (1, helloContext\<lparr>content := Str ''hello!''\<rparr>),
       (2, helloContext\<lparr>content := Str ''hello!''\<rparr>)])"
proof -
  have ok: "\<forall>i<length [appendLoader, silentLoader, artifactLoader].
      returned (fst (execAt [appendLoader, silentLoader, artifactLoader] helloContext i)) \<noteq> None"
    by (simp add: less_Suc_eq execAt_def contextAt_def loaderTransform_def appendLoader_def
        silentLoader_def artifactLoader_def helloContext_def)
  show ?thesis
    using runLoaders_is_fold [OF ok]
    by (simp add: contextAt_def loaderTransform_def appendLoader_def upt_rec
        silentLoader_def artifactLoader_def helloContext_def)
qed


lemma runLoaders_failed:
  assumes "i < length loaders"
    and "exec (loaders ! i) ctx (options (loaders ! i)) = (r, c')"
    and "returned r = None"
  shows "runLoaders loaders i ctx =
     ((case r of
         Throws e \<Rightarrow> Thrown (e\<lparr>message := failedMessage (use (loaders ! i)) (message e)\<rparr>)
       | Rejects e \<Rightarrow> Rejected e
       | _ \<Rightarrow> Pending),
      c', [(i, ctx)])"
  using assms by (cases r) (simp_all add: runLoaders.simps [of loaders i ctx])

lemma runLoaders_first_failure_from:
  assumes "j \<le> i" and "i < length loaders"
    and "\<forall>k. j \<le> k \<and> k < i \<longrightarrow> returned (fst (execAt loaders ctx k)) \<noteq> None"
    and "execAt loaders ctx i = (r, c')" and "returned r = None"
  shows "runLoaders loaders j (contextAt loaders ctx j) =
     (failureOf (i - j) (use (loaders ! i)) r, c',
      map (\<lambda>k. (k, contextAt loaders ctx k)) [j..<Suc i])"
  using assms(1,3)
proof (induction "i - j" arbitrary: j)
  case 0
  then have "j = i" by simp
  then show ?case
    using assms(2,4,5) runLoaders_failed [of i loaders "contextAt loaders ctx i" r c']
    by (cases r) (simp_all add: execAt_def)
next
  case (Suc n)
  then have lt: "j < i" and ltl: "j < length loaders" using assms(2) by simp_all
  obtain q d where ex: "exec (loaders ! j) (contextAt loaders ctx j) (options (loaders ! j)) = (q, d)"
    by (cases "exec (loaders ! j) (contextAt loaders ctx j) (options (loaders ! j))")
  from Suc.prems(2) lt have "returned (fst (execAt loaders ctx j)) \<noteq> None" by simp
  with ex obtain v where v: "returned q = Some v" by (auto simp: execAt_def)
  have next_ctx: "(if v \<noteq> Undefined then d\<lparr>content := v\<rparr> else d) = contextAt loaders ctx (Suc j)"
    using ex v ltl by (simp add: contextAt_Suc loaderTransform_returned)
  have IH: "runLoaders loaders (Suc j) (contextAt loaders ctx (Suc j)) =
     (failureOf (i - Suc j) (use (loaders ! i)) r, c',
      map (\<lambda>k. (k, contextAt loaders ctx k)) [Suc j..<Suc i])"
    using Suc.hyps(1) [of "Suc j"] Suc.hyps(2) Suc.prems lt by simp
  have cb: "thenCallback (failureOf (i - Suc j) (use (loaders ! i)) r) =
            failureOf (i - j) (use (loaders ! i)) r"
    using lt assms(5) by (cases r) simp_all
  show ?case
    using lt IH cb by (simp add: runLoaders_returned [OF ltl ex v] next_ctx upt_conv_Cons)
qed

lemma runLoaders_first_failure:
  assumes "i < length loaders"
    and "\<forall>k<i. returned (fst (execAt loaders ctx k)) \<noteq> None"
    and "execAt loaders ctx i = (r, c')" and "returned r = None"
  shows "runLoaders loaders 0 ctx =
     (failureOf i (use (loaders ! i)) r, c',
      map (\<lambda>k. (k, contextAt loaders ctx k)) [0..<Suc i])"
  using runLoaders_first_failure_from [of 0 i loaders ctx r c'] assms
  by (simp add: contextAt_0)

text \<open>
  Claim C2. A loader whose promise is rejected ends the run, and the loaders after it are
  not called, but the error comes out with its message as it was: the chain
  \<open>[appendLoader, rejectingLoader, nullLoader]\<close> is rejected with the message
  \<^verbatim>\<open>boom\<close>, which is not \<^verbatim>\<open>Loader 'rejecter' failed: boom\<close>. The same chain with a
  loader that throws instead is rejected with the message that names the loader.
\<close>

theorem runLoaders_rejection_keeps_message:
  "runLoaders [appendLoader, rejectingLoader, nullLoader] 0 helloContext =
     (Rejected \<lparr>message = ''boom''\<rparr>, helloContext\<lparr>content := Str ''hello!''\<rparr>,
      [(0, helloContext), (1, helloContext\<lparr>content := Str ''hello!''\<rparr>)])
   \<and> ''boom'' \<noteq> failedMessage (use rejectingLoader) ''boom''
   \<and> runLoaders [appendLoader, throwingLoader, nullLoader] 0 helloContext =
     (Rejected \<lparr>message = failedMessage (use throwingLoader) ''boom''\<rparr>,
      helloContext\<lparr>content := Str ''hello!''\<rparr>,
      [(0, helloContext), (1, helloContext\<lparr>content := Str ''hello!''\<rparr>)])"
  by (simp add: runLoaders.simps appendLoader_def rejectingLoader_def throwingLoader_def
      nullLoader_def helloContext_def failedMessage_def)


lemma runLoaders_cases:
  assumes "runLoaders loaders i ctx = (r, cf, calls)"
  obtains (finished) "length loaders \<le> i" "r = Resolved (content ctx)" "cf = ctx" "calls = []"
  | (failed) q where "i < length loaders" "returned q = None"
      "exec (loaders ! i) ctx (options (loaders ! i)) = (q, cf)" "calls = [(i, ctx)]"
  | (continued) q c' v r' calls' where "i < length loaders" "returned q = Some v"
      "exec (loaders ! i) ctx (options (loaders ! i)) = (q, c')"
      "runLoaders loaders (Suc i) (if v \<noteq> Undefined then c'\<lparr>content := v\<rparr> else c') = (r', cf, calls')"
      "r = thenCallback r'" "calls = (i, ctx) # calls'"
proof (cases "length loaders \<le> i")
  case True
  then have "runLoaders loaders i ctx = (Resolved (content ctx), ctx, [])"
    by (rule runLoaders_done)
  with assms have "r = Resolved (content ctx)" "cf = ctx" "calls = []" by auto
  with True show ?thesis by (rule finished)
next
  case False
  then have lt: "i < length loaders" by simp
  obtain q c' where ex: "exec (loaders ! i) ctx (options (loaders ! i)) = (q, c')"
    by (cases "exec (loaders ! i) ctx (options (loaders ! i))")
  show ?thesis
  proof (cases "returned q")
    case None
    from runLoaders_failed [OF lt ex None] assms
    have "cf = c'" "calls = [(i, ctx)]" by simp_all
    with ex have "exec (loaders ! i) ctx (options (loaders ! i)) = (q, cf)" by simp
    with lt None show ?thesis using \<open>calls = [(i, ctx)]\<close> by (rule failed)
  next
    case (Some v)
    obtain r' c'' calls' where rec:
      "runLoaders loaders (Suc i) (if v \<noteq> Undefined then c'\<lparr>content := v\<rparr> else c') = (r', c'', calls')"
      by (cases "runLoaders loaders (Suc i) (if v \<noteq> Undefined then c'\<lparr>content := v\<rparr> else c')")
    from runLoaders_returned [OF lt ex Some] rec assms
    have eqs: "r = thenCallback r'" "cf = c''" "calls = (i, ctx) # calls'" by simp_all
    from rec eqs(2) have rec': 
      "runLoaders loaders (Suc i) (if v \<noteq> Undefined then c'\<lparr>content := v\<rparr> else c') = (r', cf, calls')"
      by simp
    from lt Some ex rec' eqs(1) eqs(3) show ?thesis by (rule continued)
  qed
qed

lemma runLoaders_invariant:
  assumes "runLoaders loaders i ctx = (r, cf, calls)"
    and "P ctx"
    and "\<And>l c. l \<in> set loaders \<Longrightarrow> P c \<Longrightarrow> P (snd (exec l c (options l)))"
    and "\<And>c v. P c \<Longrightarrow> P (c\<lparr>content := v\<rparr>)"
  shows "P cf \<and> (\<forall>(k, c) \<in> set calls. P c)"
  using assms(1,2)
proof (induction "length loaders - i" arbitrary: i ctx r calls)
  case 0
  then have "runLoaders loaders i ctx = (Resolved (content ctx), ctx, [])"
    by (simp add: runLoaders_done)
  with "0.prems" show ?case by auto
next
  case (Suc n)
  from Suc.prems(1) show ?case
  proof (cases rule: runLoaders_cases)
    case finished
    with Suc.prems show ?thesis by simp
  next
    case (failed q)
    then have "P (snd (exec (loaders ! i) ctx (options (loaders ! i))))"
      using Suc.prems(2) assms(3) by (metis nth_mem)
    with failed Suc.prems(2) show ?thesis by simp
  next
    case (continued q c' v r' calls')
    then have "P (snd (exec (loaders ! i) ctx (options (loaders ! i))))"
      using Suc.prems(2) assms(3) by (metis nth_mem)
    with continued have "P (if v \<noteq> Undefined then c'\<lparr>content := v\<rparr> else c')"
      using assms(4) by simp
    with Suc.hyps(1) [OF _ continued(4)] Suc.hyps(2) continued(1)
    have "P cf \<and> (\<forall>(k, c) \<in> set calls'. P c)" by simp
    with continued Suc.prems(2) show ?thesis by simp
  qed
qed

lemma runLoaders_frame_from:
  assumes "runLoaders loaders i ctx = (r, cf, calls)"
  shows "map fst calls = [i..<i + length calls]
     \<and> (calls \<noteq> [] \<longrightarrow> snd (hd calls) = ctx)
     \<and> (\<forall>k. Suc k < length calls \<longrightarrow>
          sameButContent (snd (calls ! Suc k))
            (snd (exec (loaders ! (i + k)) (snd (calls ! k)) (options (loaders ! (i + k))))))
     \<and> (calls \<noteq> [] \<longrightarrow>
          sameButContent cf
            (snd (exec (loaders ! fst (last calls)) (snd (last calls))
                    (options (loaders ! fst (last calls))))))
     \<and> (calls = [] \<longrightarrow> cf = ctx)"
  using assms
proof (induction "length loaders - i" arbitrary: i ctx r calls)
  case 0
  then have "runLoaders loaders i ctx = (Resolved (content ctx), ctx, [])"
    by (simp add: runLoaders_done)
  with "0.prems" show ?case by auto
next
  case (Suc n)
  from Suc.prems(1) show ?case
  proof (cases rule: runLoaders_cases)
    case finished
    then show ?thesis by simp
  next
    case (failed q)
    then show ?thesis by (simp add: sameButContent_def)
  next
    case (continued q c' v r' calls')
    let ?c = "if v \<noteq> Undefined then c'\<lparr>content := v\<rparr> else c'"
    have same: "sameButContent ?c c'" by (simp add: sameButContent_def)
    have IH: "map fst calls' = [Suc i..<Suc i + length calls']
     \<and> (calls' \<noteq> [] \<longrightarrow> snd (hd calls') = ?c)
     \<and> (\<forall>k. Suc k < length calls' \<longrightarrow>
          sameButContent (snd (calls' ! Suc k))
            (snd (exec (loaders ! (Suc i + k)) (snd (calls' ! k)) (options (loaders ! (Suc i + k))))))
     \<and> (calls' \<noteq> [] \<longrightarrow>
          sameButContent cf
            (snd (exec (loaders ! fst (last calls')) (snd (last calls'))
                    (options (loaders ! fst (last calls'))))))
     \<and> (calls' = [] \<longrightarrow> cf = ?c)"
      using Suc.hyps(1) [OF _ continued(4)] Suc.hyps(2) continued(1) by simp
    have idx: "map fst calls = [i..<i + length calls]"
    proof -
      from IH have "map fst calls' = [Suc i..<Suc i + length calls']" by blast
      with continued(6) have "map fst calls = i # [Suc i..<Suc i + length calls']" by simp
      also have "\<dots> = [i..<Suc i + length calls']"
        by (rule upt_conv_Cons [symmetric]) simp
      finally show ?thesis using continued(6) by simp
    qed
    have between: "sameButContent (snd (calls ! Suc k))
            (snd (exec (loaders ! (i + k)) (snd (calls ! k)) (options (loaders ! (i + k)))))"
      if "Suc k < length calls" for k
    proof (cases k)
      case 0
      with that continued(6) have "calls' \<noteq> []" by auto
      with IH have "snd (hd calls') = ?c" by simp
      with \<open>calls' \<noteq> []\<close> have "snd (calls' ! 0) = ?c" by (simp add: hd_conv_nth)
      with 0 continued(3,6) same show ?thesis by simp
    next
      case (Suc k')
      with that continued(6) have "Suc k' < length calls'" by simp
      with IH have "sameButContent (snd (calls' ! Suc k'))
            (snd (exec (loaders ! (Suc i + k')) (snd (calls' ! k')) (options (loaders ! (Suc i + k')))))"
        by blast
      with Suc continued(6) show ?thesis by simp
    qed
    have final: "sameButContent cf
            (snd (exec (loaders ! fst (last calls)) (snd (last calls))
                    (options (loaders ! fst (last calls)))))"
    proof (cases "calls' = []")
      case True
      with IH have "cf = ?c" by simp
      with True continued(3,6) same show ?thesis by simp
    next
      case False
      with IH continued(6) show ?thesis by simp
    qed
    show ?thesis
      using idx between final continued(6) by simp
  qed
qed

text \<open>
  Claim C8. Between two calls of \<^verbatim>\<open>loader.exec\<close>, and between the last call and the end
  of the run, \<^verbatim>\<open>runLoaders\<close> changes nothing of the context but \<open>content\<close>: the
  context given to the next loader has the \<open>filePath\<close>, the \<open>extraArtifacts\<close> and the
  \<open>log\<close> the previous loader left. So when no loader changes \<open>filePath\<close>, every
  loader sees the \<open>filePath\<close> of the start, and when no loader removes an entry of
  \<open>extraArtifacts\<close> or of the \<open>log\<close>, none is ever missing.
\<close>

theorem runLoaders_changes_content_only:
  assumes "runLoaders loaders 0 ctx = (r, cf, calls)"
  shows "map fst calls = [0..<length calls]
     \<and> (calls \<noteq> [] \<longrightarrow> snd (hd calls) = ctx)
     \<and> (\<forall>k. Suc k < length calls \<longrightarrow>
          sameButContent (snd (calls ! Suc k))
            (snd (exec (loaders ! k) (snd (calls ! k)) (options (loaders ! k)))))
     \<and> (calls \<noteq> [] \<longrightarrow>
          sameButContent cf
            (snd (exec (loaders ! (length calls - 1)) (snd (last calls))
                    (options (loaders ! (length calls - 1))))))
     \<and> (calls = [] \<longrightarrow> cf = ctx)
     \<and> ((\<forall>l \<in> set loaders. \<forall>c. filePath (snd (exec l c (options l))) = filePath c) \<longrightarrow>
          filePath cf = filePath ctx \<and> (\<forall>(k, c) \<in> set calls. filePath c = filePath ctx))
     \<and> ((\<forall>l \<in> set loaders. \<forall>c.
            set (extraArtifacts c) \<subseteq> set (extraArtifacts (snd (exec l c (options l))))) \<longrightarrow>
          set (extraArtifacts ctx) \<subseteq> set (extraArtifacts cf)
          \<and> (\<forall>(k, c) \<in> set calls. set (extraArtifacts ctx) \<subseteq> set (extraArtifacts c)))
     \<and> ((\<forall>l \<in> set loaders. \<forall>c. prefix (log c) (log (snd (exec l c (options l))))) \<longrightarrow>
          prefix (log ctx) (log cf) \<and> (\<forall>(k, c) \<in> set calls. prefix (log ctx) (log c)))"
proof -
  note frame = runLoaders_frame_from [OF assms]
  from frame have idx: "map fst calls = [0..<length calls]" by simp
  have lastidx: "fst (last calls) = length calls - 1" if "calls \<noteq> []"
  proof -
    from that have "fst (last calls) = last (map fst calls)" by (simp add: last_map)
    also have "\<dots> = last [0..<length calls]" using idx by simp
    also have "\<dots> = length calls - 1" using that by (cases calls rule: rev_cases) simp_all
    finally show ?thesis .
  qed
  have a: "\<forall>k. Suc k < length calls \<longrightarrow>
          sameButContent (snd (calls ! Suc k))
            (snd (exec (loaders ! k) (snd (calls ! k)) (options (loaders ! k))))"
    using frame by simp
  have b: "calls \<noteq> [] \<longrightarrow>
          sameButContent cf
            (snd (exec (loaders ! (length calls - 1)) (snd (last calls))
                    (options (loaders ! (length calls - 1)))))"
    using frame lastidx by auto
  have fp: "filePath cf = filePath ctx \<and> (\<forall>(k, c) \<in> set calls. filePath c = filePath ctx)"
    if "\<forall>l \<in> set loaders. \<forall>c. filePath (snd (exec l c (options l))) = filePath c"
    using that by (intro runLoaders_invariant [OF assms, where P = "\<lambda>c. filePath c = filePath ctx"]) simp_all
  have ea: "set (extraArtifacts ctx) \<subseteq> set (extraArtifacts cf)
          \<and> (\<forall>(k, c) \<in> set calls. set (extraArtifacts ctx) \<subseteq> set (extraArtifacts c))"
    if "\<forall>l \<in> set loaders. \<forall>c.
            set (extraArtifacts c) \<subseteq> set (extraArtifacts (snd (exec l c (options l))))"
    using that
    by (intro runLoaders_invariant [OF assms,
          where P = "\<lambda>c. set (extraArtifacts ctx) \<subseteq> set (extraArtifacts c)"])
       (auto intro: subset_trans)
  have lg: "prefix (log ctx) (log cf) \<and> (\<forall>(k, c) \<in> set calls. prefix (log ctx) (log c))"
    if "\<forall>l \<in> set loaders. \<forall>c. prefix (log c) (log (snd (exec l c (options l))))"
    using that
    by (intro runLoaders_invariant [OF assms, where P = "\<lambda>c. prefix (log ctx) (log c)"])
       (auto intro: prefix_order.trans)
  from frame have c0: "calls \<noteq> [] \<longrightarrow> snd (hd calls) = ctx" and c1: "calls = [] \<longrightarrow> cf = ctx"
    by simp_all
  show ?thesis
    using idx c0 a b c1 fp ea lg by blast
qed


theorem runLoaders_changes_content_only_witness:
  "filePath (fst (snd (runLoaders [appendLoader, artifactLoader] 0 helloContext))) =
     filePath helloContext
   \<and> set (extraArtifacts helloContext) \<subseteq>
       set (extraArtifacts (fst (snd (runLoaders [appendLoader, artifactLoader] 0 helloContext))))
   \<and> sameButContent (helloContext\<lparr>content := Str ''hello!''\<rparr>)
       (snd (exec appendLoader helloContext (options appendLoader)))"
proof -
  let ?calls = "[(0, helloContext), (Suc 0, helloContext\<lparr>content := Str ''hello!''\<rparr>)]"
  have run: "runLoaders [appendLoader, artifactLoader] 0 helloContext =
     (Resolved (Str ''hello!''),
      helloContext\<lparr>content := Str ''hello!'', extraArtifacts := [(''foo.txt'', Str ''bar'')]\<rparr>,
      ?calls)"
    by (simp add: runLoaders.simps appendLoader_def artifactLoader_def helloContext_def)
  have keeps: "\<forall>l \<in> set [appendLoader, artifactLoader]. \<forall>c.
      filePath (snd (exec l c (options l))) = filePath c"
    by (simp add: appendLoader_def artifactLoader_def)
  have grows: "\<forall>l \<in> set [appendLoader, artifactLoader]. \<forall>c.
      set (extraArtifacts c) \<subseteq> set (extraArtifacts (snd (exec l c (options l))))"
    by (auto simp: appendLoader_def artifactLoader_def)
  from runLoaders_changes_content_only [OF run] keeps grows
  have "filePath (helloContext\<lparr>content := Str ''hello!'',
            extraArtifacts := [(''foo.txt'', Str ''bar'')]\<rparr>) = filePath helloContext"
    and "set (extraArtifacts helloContext) \<subseteq> set (extraArtifacts (helloContext\<lparr>content := Str ''hello!'',
            extraArtifacts := [(''foo.txt'', Str ''bar'')]\<rparr>))"
    and "Suc 0 < length ?calls \<longrightarrow> sameButContent (snd (?calls ! Suc 0))
            (snd (exec ([appendLoader, artifactLoader] ! 0) (snd (?calls ! 0))
               (options ([appendLoader, artifactLoader] ! 0))))"
    by blast+
  then show ?thesis
    by (simp add: run)
qed

subsection \<open>Destination paths\<close>

lemma stripSourceDir_no_match:
  "\<forall>t \<in> set srcs. \<not> prefix (t @ sep) f \<Longrightarrow> stripSourceDir srcs sep f = f"
  by (induction srcs) simp_all

lemma stripSourceDir_first_match:
  assumes "\<forall>t \<in> set pre. \<not> prefix (t @ sep) f" and "prefix (s @ sep) f"
  shows "stripSourceDir (pre @ s # post) sep f = drop (length (s @ sep)) f"
  using assms by (induction pre) simp_all

text \<open>
  Claim C10. \<^verbatim>\<open>stripSourceDir\<close> removes one prefix, that of the first configured
  source directory whose prefix (the directory followed by the separator) matches, and
  nothing more: the path is that prefix followed by the result, also when the result
  begins with the prefix of another source directory. A path that no configured prefix
  matches is returned as it is.
\<close>

theorem stripSourceDir_strips_once:
  "(\<forall>pre s post.
      srcs = pre @ s # post \<and> (\<forall>t \<in> set pre. \<not> prefix (t @ sep) f) \<and> prefix (s @ sep) f \<longrightarrow>
      f = s @ sep @ stripSourceDir srcs sep f)
   \<and> ((\<forall>t \<in> set srcs. \<not> prefix (t @ sep) f) \<longrightarrow> stripSourceDir srcs sep f = f)
   \<and> stripSourceDir [''src'', ''lib''] ''/'' ''src/lib/x.js'' = ''lib/x.js''
   \<and> stripSourceDir [''lib'', ''src''] ''/'' ''src/lib/x.js'' = ''lib/x.js''"
proof -
  have one: "f = s @ sep @ stripSourceDir srcs sep f"
    if "srcs = pre @ s # post" "\<forall>t \<in> set pre. \<not> prefix (t @ sep) f" "prefix (s @ sep) f"
    for pre s post
  proof -
    from that(3) obtain rest where f: "f = (s @ sep) @ rest" by (auto simp: prefix_def)
    from that have "stripSourceDir srcs sep f = drop (length (s @ sep)) f"
      by (simp add: stripSourceDir_first_match)
    with f show ?thesis by simp
  qed
  have none: "(\<forall>t \<in> set srcs. \<not> prefix (t @ sep) f) \<longrightarrow> stripSourceDir srcs sep f = f"
    by (simp add: stripSourceDir_no_match)
  have ex1: "stripSourceDir [''src'', ''lib''] ''/'' ''src/lib/x.js'' = ''lib/x.js''" by simp
  have ex2: "stripSourceDir [''lib'', ''src''] ''/'' ''src/lib/x.js'' = ''lib/x.js''" by simp
  from one none ex1 ex2 show ?thesis by blast
qed

theorem stripSourceDir_strips_once_witness:
  "''src/lib/x.js'' = ''src'' @ ''/'' @ stripSourceDir [''app'', ''src'', ''lib''] ''/'' ''src/lib/x.js''
   \<and> stripSourceDir [''app'', ''lib''] ''/'' ''src/lib/x.js'' = ''src/lib/x.js''"
proof -
  have m: "[''app'', ''src'', ''lib''] = [''app''] @ ''src'' # [''lib'']
      \<and> (\<forall>t \<in> set [''app'']. \<not> prefix (t @ ''/'') ''src/lib/x.js'')
      \<and> prefix (''src'' @ ''/'') ''src/lib/x.js''"
    by simp
  have n: "\<forall>t \<in> set [''app'', ''lib'']. \<not> prefix (t @ ''/'') ''src/lib/x.js''"
    by simp
  from stripSourceDir_strips_once [of "[''app'', ''src'', ''lib'']" "''/''" "''src/lib/x.js''"] m
  have a: "''src/lib/x.js'' = ''src'' @ ''/'' @ stripSourceDir [''app'', ''src'', ''lib''] ''/'' ''src/lib/x.js''"
    by blast
  from stripSourceDir_strips_once [of "[''app'', ''lib'']" "''/''" "''src/lib/x.js''"] n
  have b: "stripSourceDir [''app'', ''lib''] ''/'' ''src/lib/x.js'' = ''src/lib/x.js''"
    by blast
  from a b show ?thesis by (rule conjI)
qed

lemma writeRuleFile_eq:
  "writeRuleFile prj destPkg pkgFile c w =
     w\<lparr>fsops := fsops w @ writeOps prj (ruleFilePath prj destPkg pkgFile) c\<rparr>"
  by (simp add: writeRuleFile_def ruleFilePath_def rootFilePath_def depFilePath_def Let_def)

text \<open>
  Claim C4. \<^verbatim>\<open>writeRuleFile\<close> writes a file of a root package at its path with the
  source directory prefix stripped, under the directory of the destination package: with
  the source directories \<^verbatim>\<open>["src"]\<close>, \<^verbatim>\<open>src/a/b.js\<close> is written at \<^verbatim>\<open>a/b.js\<close>. A
  file of a dependency package is written at its path as it is: \<^verbatim>\<open>lib/x.js\<close> at
  \<^verbatim>\<open>lib/x.js\<close>.
\<close>

theorem writeRuleFile_destination:
  "(isRoot destPkg \<longrightarrow>
      writeRuleFile prj destPkg pkgFile c w =
        w\<lparr>fsops := fsops w @
          [EnsureDir (pathDirname prj (pathJoin prj [projectDir prj, dir destPkg,
              stripSourceDir (sourcesAsPlatform prj) (pathSep prj) pkgFile])),
           WriteFile (pathJoin prj [projectDir prj, dir destPkg,
              stripSourceDir (sourcesAsPlatform prj) (pathSep prj) pkgFile]) c]\<rparr>)
   \<and> (\<not> isRoot destPkg \<longrightarrow>
      writeRuleFile prj destPkg pkgFile c w =
        w\<lparr>fsops := fsops w @
          [EnsureDir (pathDirname prj (pathJoin prj [projectDir prj, dir destPkg, pkgFile])),
           WriteFile (pathJoin prj [projectDir prj, dir destPkg, pkgFile]) c]\<rparr>)
   \<and> (isRoot destPkg \<and> sourcesAsPlatform prj = [''src''] \<and> pathSep prj = ''/'' \<longrightarrow>
      writeRuleFile prj destPkg ''src/a/b.js'' c w =
        w\<lparr>fsops := fsops w @
          [EnsureDir (pathDirname prj (pathJoin prj [projectDir prj, dir destPkg, ''a/b.js''])),
           WriteFile (pathJoin prj [projectDir prj, dir destPkg, ''a/b.js'']) c]\<rparr>)
   \<and> (\<not> isRoot destPkg \<longrightarrow>
      writeRuleFile prj destPkg ''lib/x.js'' c w =
        w\<lparr>fsops := fsops w @
          [EnsureDir (pathDirname prj (pathJoin prj [projectDir prj, dir destPkg, ''lib/x.js''])),
           WriteFile (pathJoin prj [projectDir prj, dir destPkg, ''lib/x.js'']) c]\<rparr>)"
  by (simp add: writeRuleFile_def writeOps_def Let_def)

theorem writeRuleFile_destination_witness:
  "writeRuleFile demoProject (clone demoRootPkg ''build'') ''src/a/b.js'' (Str ''x'') emptyWorld =
     emptyWorld\<lparr>fsops := [EnsureDir ''/prj/build/a'', WriteFile ''/prj/build/a/b.js'' (Str ''x'')]\<rparr>
   \<and> writeRuleFile demoProject (clone demoDepPkg ''build/node_modules/dep'') ''lib/x.js'' (Str ''y'')
       emptyWorld =
     emptyWorld\<lparr>fsops := [EnsureDir ''/prj/build/node_modules/dep/lib'',
        WriteFile ''/prj/build/node_modules/dep/lib/x.js'' (Str ''y'')]\<rparr>"
proof -
  have r: "isRoot (clone demoRootPkg ''build'') \<and> sourcesAsPlatform demoProject = [''src'']
      \<and> pathSep demoProject = ''/''"
    by (simp add: clone_def demoRootPkg_def demoProject_def)
  have d: "\<not> isRoot (clone demoDepPkg ''build/node_modules/dep'')"
    by (simp add: clone_def demoDepPkg_def)
  from writeRuleFile_destination
         [of "clone demoRootPkg ''build''" demoProject "''src/a/b.js''" "Str ''x''" emptyWorld] r
  have a: "writeRuleFile demoProject (clone demoRootPkg ''build'') ''src/a/b.js'' (Str ''x'') emptyWorld =
        emptyWorld\<lparr>fsops := fsops emptyWorld @
          [EnsureDir (pathDirname demoProject (pathJoin demoProject
              [projectDir demoProject, dir (clone demoRootPkg ''build''), ''a/b.js''])),
           WriteFile (pathJoin demoProject
              [projectDir demoProject, dir (clone demoRootPkg ''build''), ''a/b.js'']) (Str ''x'')]\<rparr>"
    by blast
  from writeRuleFile_destination
         [of "clone demoDepPkg ''build/node_modules/dep''" demoProject "''lib/x.js''" "Str ''y''" emptyWorld] d
  have b: "writeRuleFile demoProject (clone demoDepPkg ''build/node_modules/dep'') ''lib/x.js'' (Str ''y'')
       emptyWorld =
        emptyWorld\<lparr>fsops := fsops emptyWorld @
          [EnsureDir (pathDirname demoProject (pathJoin demoProject
              [projectDir demoProject, dir (clone demoDepPkg ''build/node_modules/dep''), ''lib/x.js''])),
           WriteFile (pathJoin demoProject
              [projectDir demoProject, dir (clone demoDepPkg ''build/node_modules/dep''), ''lib/x.js''])
             (Str ''y'')]\<rparr>"
    by blast
  have ea: "emptyWorld\<lparr>fsops := fsops emptyWorld @
          [EnsureDir (pathDirname demoProject (pathJoin demoProject
              [projectDir demoProject, dir (clone demoRootPkg ''build''), ''a/b.js''])),
           WriteFile (pathJoin demoProject
              [projectDir demoProject, dir (clone demoRootPkg ''build''), ''a/b.js'']) (Str ''x'')]\<rparr>
     = emptyWorld\<lparr>fsops := [EnsureDir ''/prj/build/a'', WriteFile ''/prj/build/a/b.js'' (Str ''x'')]\<rparr>"
    by (simp add: demoProject_def clone_def demoRootPkg_def emptyWorld_def slashDirname_def)
  have eb: "emptyWorld\<lparr>fsops := fsops emptyWorld @
          [EnsureDir (pathDirname demoProject (pathJoin demoProject
              [projectDir demoProject, dir (clone demoDepPkg ''build/node_modules/dep''), ''lib/x.js''])),
           WriteFile (pathJoin demoProject
              [projectDir demoProject, dir (clone demoDepPkg ''build/node_modules/dep''), ''lib/x.js''])
             (Str ''y'')]\<rparr>
     = emptyWorld\<lparr>fsops := [EnsureDir ''/prj/build/node_modules/dep/lib'',
        WriteFile ''/prj/build/node_modules/dep/lib/x.js'' (Str ''y'')]\<rparr>"
    by (simp add: demoProject_def clone_def demoDepPkg_def emptyWorld_def slashDirname_def)
  from a b ea eb show ?thesis by simp
qed

subsection \<open>Writing the result\<close>

lemma writeExtraArtifact_step:
  "writeExtraArtifact prj srcPkg destPkg (ctx, w) entry =
     (ctx\<lparr>log := log ctx @ artifactDiagnostics entry\<rparr>,
      w\<lparr>fsops := fsops w @ artifactOps prj srcPkg destPkg entry\<rparr>)"
proof (cases entry)
  case (Pair prjExtraFile c)
  then show ?thesis
    by (cases c)
       (simp_all add: writeExtraArtifact_def writeRuleFile_eq logInfo_def extraArtifactMessage_def)
qed

lemma writeExtraArtifact_foldl:
  "foldl (writeExtraArtifact prj srcPkg destPkg) (ctx, w) entries =
     (ctx\<lparr>log := log ctx @ concat (map artifactDiagnostics entries)\<rparr>,
      w\<lparr>fsops := fsops w @ concat (map (artifactOps prj srcPkg destPkg) entries)\<rparr>)"
proof (induction entries arbitrary: ctx w)
  case Nil
  show ?case by simp
next
  case (Cons entry entries)
  show ?case
    by (simp add: writeExtraArtifact_step Cons.IH)
qed

lemma writeLoadersResult_eq:
  "writeLoadersResult prj srcPkg destPkg ctx w =
     (ctx\<lparr>log := log ctx @ concat (map artifactDiagnostics (extraArtifacts ctx))\<rparr>,
      w\<lparr>fsops := fsops w @ primaryOps prj srcPkg destPkg ctx
              @ concat (map (artifactOps prj srcPkg destPkg) (extraArtifacts ctx))\<rparr>)"
  by (cases "content ctx")
     (simp_all add: writeLoadersResult_def writeExtraArtifact_foldl writeRuleFile_eq)

text \<open>
  Claim C5. \<^verbatim>\<open>writeLoadersResult\<close> goes through the entries of \<open>extraArtifacts\<close> in
  order. An entry whose content is a string is written, with that content, at its
  project-relative path taken relative to the source package and placed under the
  destination package, and adds one informational entry to the log of the context, tagged
  \<^verbatim>\<open>liferay-npm-bundler\<close> and naming the path. An entry whose content is
  \<^verbatim>\<open>undefined\<close> adds no file system call and no log entry. Nothing else is written but
  the primary file, and nothing else is logged.
\<close>

theorem writeLoadersResult_extra_artifacts:
  "writeLoadersResult prj srcPkg destPkg ctx w =
     (ctx\<lparr>log := log ctx @ concat (map artifactDiagnostics (extraArtifacts ctx))\<rparr>,
      w\<lparr>fsops := fsops w @ primaryOps prj srcPkg destPkg ctx
              @ concat (map (artifactOps prj srcPkg destPkg) (extraArtifacts ctx))\<rparr>)
   \<and> artifactOps prj srcPkg destPkg (prjExtraFile, Str s) =
       [EnsureDir (pathDirname prj
          (ruleFilePath prj destPkg
             (pathRelative prj (dir srcPkg) (pathJoin prj [projectDir prj, prjExtraFile])))),
        WriteFile
          (ruleFilePath prj destPkg
             (pathRelative prj (dir srcPkg) (pathJoin prj [projectDir prj, prjExtraFile])))
          (Str s)]
   \<and> artifactDiagnostics (prjExtraFile, Str s) =
       [(Info, ''liferay-npm-bundler'', ''Rules generated extra artifact: '' @ prjExtraFile)]
   \<and> artifactOps prj srcPkg destPkg (prjExtraFile, Undefined) = []
   \<and> artifactDiagnostics (prjExtraFile, Undefined) = []"
  by (simp add: writeLoadersResult_eq writeOps_def pkgRelative_def)

theorem writeLoadersResult_extra_artifacts_witness:
  "writeLoadersResult demoProject demoRootPkg (clone demoRootPkg ''build'')
     \<lparr>content = Str ''hello!'', filePath = ''src/index.js'',
      extraArtifacts = [(''foo.txt'', Str ''bar''), (''skip.txt'', Undefined)], log = []\<rparr>
     emptyWorld =
   (\<lparr>content = Str ''hello!'', filePath = ''src/index.js'',
      extraArtifacts = [(''foo.txt'', Str ''bar''), (''skip.txt'', Undefined)],
      log = [(Info, ''liferay-npm-bundler'', ''Rules generated extra artifact: foo.txt'')]\<rparr>,
    emptyWorld\<lparr>fsops :=
      [EnsureDir ''/prj/build'', WriteFile ''/prj/build/index.js'' (Str ''hello!''),
       EnsureDir ''/prj/build'', WriteFile ''/prj/build/foo.txt'' (Str ''bar'')]\<rparr>)"
  using writeLoadersResult_extra_artifacts
    [of demoProject demoRootPkg "clone demoRootPkg ''build''"
        "\<lparr>content = Str ''hello!'', filePath = ''src/index.js'',
          extraArtifacts = [(''foo.txt'', Str ''bar''), (''skip.txt'', Undefined)], log = []\<rparr>"
        emptyWorld]
  by (simp add: demoProject_def demoRootPkg_def clone_def emptyWorld_def writeOps_def
      ruleFilePath_def rootFilePath_def pkgRelative_def slashDirname_def)

text \<open>
  Claim C3. When the loader chain resolved for a file is empty, \<^verbatim>\<open>processFile\<close> ends
  at once with a fulfilled promise: apart from the lookup of the chain, the world is as
  before, so no file is written, no directory created and nothing reported.
\<close>

theorem processFile_empty_chain:
  assumes "loadersForFile prj (pathJoin prj [projectDir prj, prjSrcFile]) = []"
  shows "processFile prj srcPkg destPkg prjSrcFile w =
           (Resolved (), w\<lparr>lookups := lookups w @ [pathJoin prj [projectDir prj, prjSrcFile]]\<rparr>)
         \<and> fsops (snd (processFile prj srcPkg destPkg prjSrcFile w)) = fsops w
         \<and> reports (snd (processFile prj srcPkg destPkg prjSrcFile w)) = reports w
         \<and> debugLog (snd (processFile prj srcPkg destPkg prjSrcFile w)) = debugLog w"
  using assms by (simp add: processFile_def Let_def)

theorem processFile_empty_chain_witness:
  "processFile demoProject demoRootPkg (clone demoRootPkg ''build'') ''src/readme.txt'' emptyWorld =
     (Resolved (), emptyWorld\<lparr>lookups := [''/prj/src/readme.txt'']\<rparr>)"
proof -
  have e: "loadersForFile demoProject
      (pathJoin demoProject [projectDir demoProject, ''src/readme.txt'']) = []"
    by (simp add: demoProject_def)
  from processFile_empty_chain [OF e, of demoRootPkg "clone demoRootPkg ''build''" emptyWorld]
  show ?thesis
    by (simp add: demoProject_def emptyWorld_def)
qed

lemma runLoaders_fold:
  assumes "\<forall>i<length loaders. returned (fst (execAt loaders ctx i)) \<noteq> None"
  shows "runLoaders loaders 0 ctx =
           (Resolved (content (contextAt loaders ctx (length loaders))),
            contextAt loaders ctx (length loaders),
            map (\<lambda>i. (i, contextAt loaders ctx i)) [0..<length loaders])"
  using runLoaders_fold_from [of 0 loaders ctx] assms by (simp add: contextAt_0)

lemma contextAt_after_null:
  assumes "i < length loaders" and "returned (fst (execAt loaders ctx i)) = Some Null"
    and "\<forall>k. i < k \<and> k < length loaders \<longrightarrow>
           returned (fst (execAt loaders ctx k)) = Some Undefined
           \<and> content (snd (execAt loaders ctx k)) = content (contextAt loaders ctx k)"
    and "i < n" and "n \<le> length loaders"
  shows "content (contextAt loaders ctx n) = Null"
  using assms(4,5)
proof (induction n)
  case 0
  then show ?case by simp
next
  case (Suc n)
  obtain q c' where ex: "execAt loaders ctx n = (q, c')" by (cases "execAt loaders ctx n")
  show ?case
  proof (cases "n = i")
    case True
    with assms(2) ex have "returned q = Some Null" by simp
    with ex Suc.prems True show ?thesis
      by (simp add: contextAt_Suc loaderTransform_def execAt_def)
  next
    case False
    with Suc.prems have lt: "i < n" "n < length loaders" by simp_all
    with assms(3) ex have "returned q = Some Undefined" "content c' = content (contextAt loaders ctx n)"
      by auto
    moreover from Suc.IH lt have "content (contextAt loaders ctx n) = Null" by simp
    ultimately show ?thesis
      using ex lt by (simp add: contextAt_Suc loaderTransform_def execAt_def)
  qed
qed

text \<open>
  Claim C9. Let loader \<open>i\<close> return \<^verbatim>\<open>null\<close>, the loaders before it return anything,
  and the loaders after it return no value and leave \<open>content\<close> alone. Then the loader
  after \<open>i\<close> is given a context whose \<open>content\<close> is \<^verbatim>\<open>null\<close>, the run is fulfilled
  with \<^verbatim>\<open>null\<close>, and \<^verbatim>\<open>writeLoadersResult\<close> on the final context makes no file
  system call for the primary file: it makes those of the extra artifacts only.
\<close>

theorem null_content_writes_no_primary_file:
  assumes "i < length loaders"
    and "\<forall>k<i. returned (fst (execAt loaders ctx k)) \<noteq> None"
    and "returned (fst (execAt loaders ctx i)) = Some Null"
    and "\<forall>k. i < k \<and> k < length loaders \<longrightarrow>
           returned (fst (execAt loaders ctx k)) = Some Undefined
           \<and> content (snd (execAt loaders ctx k)) = content (contextAt loaders ctx k)"
  shows "content (contextAt loaders ctx (Suc i)) = Null
     \<and> fst (runLoaders loaders 0 ctx) = Resolved Null
     \<and> content (fst (snd (runLoaders loaders 0 ctx))) = Null
     \<and> fsops (snd (writeLoadersResult prj srcPkg destPkg (fst (snd (runLoaders loaders 0 ctx))) w)) =
         fsops w @ concat (map (artifactOps prj srcPkg destPkg)
                             (extraArtifacts (fst (snd (runLoaders loaders 0 ctx)))))"
proof -
  have ok: "\<forall>k<length loaders. returned (fst (execAt loaders ctx k)) \<noteq> None"
  proof (intro allI impI)
    fix k assume "k < length loaders"
    then consider "k < i" | "k = i" | "i < k \<and> k < length loaders" by linarith
    then show "returned (fst (execAt loaders ctx k)) \<noteq> None"
      using assms(2,3,4) by cases auto
  qed
  have nul: "content (contextAt loaders ctx n) = Null" if "i < n" "n \<le> length loaders" for n
    using contextAt_after_null [OF assms(1,3,4) that] .
  from assms(1) have a: "content (contextAt loaders ctx (Suc i)) = Null"
    by (intro nul) simp_all
  from assms(1) have fin: "content (contextAt loaders ctx (length loaders)) = Null"
    by (intro nul) simp_all
  let ?cf = "contextAt loaders ctx (length loaders)"
  have run: "runLoaders loaders 0 ctx =
      (Resolved Null, ?cf, map (\<lambda>i. (i, contextAt loaders ctx i)) [0..<length loaders])"
    using runLoaders_fold [OF ok] fin by simp
  have wr: "fsops (snd (writeLoadersResult prj srcPkg destPkg ?cf w)) =
      fsops w @ concat (map (artifactOps prj srcPkg destPkg) (extraArtifacts ?cf))"
    using fin by (simp add: writeLoadersResult_eq)
  show ?thesis
    using a run fin wr by simp
qed

theorem null_content_writes_no_primary_file_witness:
  "fst (runLoaders [appendLoader, artifactLoader, nullLoader, silentLoader] 0 helloContext) =
     Resolved Null
   \<and> fsops (snd (writeLoadersResult demoProject demoRootPkg (clone demoRootPkg ''build'')
        (fst (snd (runLoaders [appendLoader, artifactLoader, nullLoader, silentLoader] 0
                     helloContext))) emptyWorld)) =
     [EnsureDir ''/prj/build'', WriteFile ''/prj/build/foo.txt'' (Str ''bar'')]"
proof -
  let ?chain = "[appendLoader, artifactLoader, nullLoader, silentLoader]"
  have c1: "contextAt ?chain helloContext (Suc 0) = helloContext\<lparr>content := Str ''hello!''\<rparr>"
    by (simp add: contextAt_def loaderTransform_def appendLoader_def helloContext_def)
  have c2: "contextAt ?chain helloContext 2 =
      helloContext\<lparr>content := Str ''hello!'', extraArtifacts := [(''foo.txt'', Str ''bar'')]\<rparr>"
    by (simp add: contextAt_def loaderTransform_def appendLoader_def artifactLoader_def
        helloContext_def numeral_2_eq_2)
  have c3: "contextAt ?chain helloContext 3 =
      helloContext\<lparr>content := Null, extraArtifacts := [(''foo.txt'', Str ''bar'')]\<rparr>"
    by (simp add: contextAt_def loaderTransform_def appendLoader_def artifactLoader_def
        nullLoader_def helloContext_def numeral_3_eq_3)
  have h1: "(2::nat) < length ?chain" by simp
  have h2: "\<forall>k<2. returned (fst (execAt ?chain helloContext k)) \<noteq> None"
    by (simp add: less_Suc_eq numeral_2_eq_2 execAt_def contextAt_0 c1 appendLoader_def
        artifactLoader_def)
  have h3: "returned (fst (execAt ?chain helloContext 2)) = Some Null"
    by (simp add: execAt_def c2 nullLoader_def)
  have h4: "\<forall>k. 2 < k \<and> k < length ?chain \<longrightarrow>
           returned (fst (execAt ?chain helloContext k)) = Some Undefined
           \<and> content (snd (execAt ?chain helloContext k)) = content (contextAt ?chain helloContext k)"
  proof (intro allI impI)
    fix k :: nat assume "2 < k \<and> k < length ?chain"
    then have "k = 3" by simp
    then show "returned (fst (execAt ?chain helloContext k)) = Some Undefined
           \<and> content (snd (execAt ?chain helloContext k)) = content (contextAt ?chain helloContext k)"
      by (simp add: execAt_def c3 silentLoader_def)
  qed
  have run: "fst (snd (runLoaders ?chain 0 helloContext)) =
      helloContext\<lparr>content := Null, extraArtifacts := [(''foo.txt'', Str ''bar'')]\<rparr>"
    by (simp add: runLoaders.simps appendLoader_def artifactLoader_def nullLoader_def
        silentLoader_def helloContext_def)
  from null_content_writes_no_primary_file [OF h1 h2 h3 h4,
         of demoProject demoRootPkg "clone demoRootPkg ''build''" emptyWorld]
  have "fst (runLoaders ?chain 0 helloContext) = Resolved Null"
    and "fsops (snd (writeLoadersResult demoProject demoRootPkg (clone demoRootPkg ''build'')
           (fst (snd (runLoaders ?chain 0 helloContext))) emptyWorld)) =
         fsops emptyWorld @ concat (map (artifactOps demoProject demoRootPkg (clone demoRootPkg ''build''))
           (extraArtifacts (fst (snd (runLoaders ?chain 0 helloContext)))))"
    by blast+
  then show ?thesis
    unfolding run
    by (simp add: demoProject_def demoRootPkg_def clone_def emptyWorld_def writeOps_def
        ruleFilePath_def rootFilePath_def pkgRelative_def slashDirname_def)
qed

subsection \<open>Packages\<close>

lemma processFile_world:
  "lookups (snd (processFile prj srcPkg destPkg prjSrcFile w)) =
     lookups w @ [pathJoin prj [projectDir prj, prjSrcFile]]
   \<and> debugLog (snd (processFile prj srcPkg destPkg prjSrcFile w)) = debugLog w"
proof -
  let ?abs = "pathJoin prj [projectDir prj, prjSrcFile]"
  let ?ctx = "\<lparr>content = Str (readFileSync prj ?abs), filePath = prjSrcFile,
               extraArtifacts = [], log = []\<rparr>"
  obtain r cf calls where run: "runLoaders (loadersForFile prj ?abs) 0 ?ctx = (r, cf, calls)"
    by (cases "runLoaders (loadersForFile prj ?abs) 0 ?ctx")
  show ?thesis
    by (cases r) (simp_all add: processFile_def Let_def run writeLoadersResult_eq)
qed

lemma attemptAll_processFile:
  "lookups (attemptAll (processFile prj srcPkg destPkg) items w) =
     lookups w @ map (\<lambda>f. pathJoin prj [projectDir prj, f]) items
   \<and> debugLog (attemptAll (processFile prj srcPkg destPkg) items w) = debugLog w"
proof (induction items arbitrary: w)
  case Nil
  show ?case by (simp add: attemptAll_def)
next
  case (Cons item items)
  have "attemptAll (processFile prj srcPkg destPkg) (item # items) w =
        attemptAll (processFile prj srcPkg destPkg) items
          (snd (processFile prj srcPkg destPkg item w))"
    by (simp add: attemptAll_def)
  then show ?case
    using Cons.IH [of "snd (processFile prj srcPkg destPkg item w)"]
    by (simp add: processFile_world)
qed

lemma processPackage_resolved:
  assumes "attemptsEveryItem (runInChunks prj)"
    and "processPackage prj srcPkg w = (Resolved (), w')"
  shows "lookups w' = lookups w @ map (\<lambda>f. pathJoin prj [projectDir prj, f]) (prjSrcFiles prj srcPkg)
     \<and> debugLog w' = debugLog w @ [applyingMessage (pkgId srcPkg)]"
proof -
  let ?w0 = "w\<lparr>debugLog := debugLog w @ [applyingMessage (pkgId srcPkg)]\<rparr>"
  let ?op = "processFile prj srcPkg (clone srcPkg (getDestDir prj srcPkg))"
  from assms(2) have "runInChunks prj (prjSrcFiles prj srcPkg) (getMaxParallelFiles prj) 0 ?op ?w0
      = (Resolved (), w')"
    by (simp add: processPackage_def Let_def)
  with assms(1) have "w' = attemptAll ?op (prjSrcFiles prj srcPkg) ?w0"
    unfolding attemptsEveryItem_def by blast
  then show ?thesis
    by (simp add: attemptAll_processFile)
qed

lemma promiseAll_resolved:
  "promiseAll rs = Resolved vs \<Longrightarrow> r \<in> set rs \<Longrightarrow> \<exists>v. r = Resolved v"
proof (induction rs arbitrary: vs)
  case Nil
  then show ?case by simp
next
  case (Cons a rs)
  then show ?case
    by (cases a; cases "promiseAll rs") auto
qed

lemma mapPackages_resolved:
  assumes "attemptsEveryItem (runInChunks prj)"
    and "mapPackages (processPackage prj) pkgs w = (Inr rs, w')"
    and "promiseAll rs = Resolved vs"
  shows "lookups w' = lookups w @
           concat (map (\<lambda>srcPkg. map (\<lambda>f. pathJoin prj [projectDir prj, f])
                                   (prjSrcFiles prj srcPkg)) pkgs)
     \<and> debugLog w' = debugLog w @ map (\<lambda>srcPkg. applyingMessage (pkgId srcPkg)) pkgs"
  using assms(2,3)
proof (induction pkgs arbitrary: w rs vs)
  case Nil
  then show ?case by simp
next
  case (Cons p pkgs)
  obtain r w1 where p: "processPackage prj p w = (r, w1)"
    by (cases "processPackage prj p w")
  obtain res w2 where rest: "mapPackages (processPackage prj) pkgs w1 = (res, w2)"
    by (cases "mapPackages (processPackage prj) pkgs w1")
  from Cons.prems(1) p rest obtain rs' where
    rs: "res = Inr rs'" "rs = r # rs'" "w' = w2"
    by (cases r; cases res) auto
  from Cons.prems(2) rs(2) have "\<exists>v. r = Resolved v"
    by (intro promiseAll_resolved [of rs vs r]) simp_all
  then have r: "r = Resolved ()" by auto
  with Cons.prems(2) rs(2) obtain vs' where vs': "promiseAll rs' = Resolved vs'"
    by (cases "promiseAll rs'") auto
  from processPackage_resolved [OF assms(1)] p r
  have one: "lookups w1 = lookups w @ map (\<lambda>f. pathJoin prj [projectDir prj, f]) (prjSrcFiles prj p)
     \<and> debugLog w1 = debugLog w @ [applyingMessage (pkgId p)]"
    by simp
  from Cons.IH [of w1 rs' vs'] rest rs vs'
  have more: "lookups w' = lookups w1 @
           concat (map (\<lambda>srcPkg. map (\<lambda>f. pathJoin prj [projectDir prj, f])
                                   (prjSrcFiles prj srcPkg)) pkgs)
     \<and> debugLog w' = debugLog w1 @ map (\<lambda>srcPkg. applyingMessage (pkgId srcPkg)) pkgs"
    by simp
  from one more show ?case by simp
qed

text \<open>
  Claim C7. Let \<^verbatim>\<open>runInChunks\<close> fulfil its promise only when the operation has been run on
  every item. For every root package and every list of dependency packages: when the
  promise of \<^verbatim>\<open>runRules\<close> is fulfilled, \<^verbatim>\<open>processPackage\<close> has been entered for the
  packages that are not clean, in their order, and for no other; \<^verbatim>\<open>processFile\<close> has been
  started once on every file found for each of these packages and on no other file (in
  whatever order: the lookups are compared as multisets); and after the messages of the
  packages the debug log ends with one summary, whose number is the number of packages
  that are not clean.
\<close>

theorem runRules_dirty_packages:
  assumes "attemptsEveryItem (runInChunks prj)"
    and "runRules prj root depPkgs w = (Resolved u, w')"
  shows "mset (lookups w') = mset (lookups w) +
           mset (concat (map (\<lambda>srcPkg. map (\<lambda>f. pathJoin prj [projectDir prj, f])
                                         (prjSrcFiles prj srcPkg))
                          (filter (\<lambda>srcPkg. \<not> clean srcPkg) (root # depPkgs))))
     \<and> debugLog w' = debugLog w @
           map (\<lambda>srcPkg. applyingMessage (pkgId srcPkg))
             (filter (\<lambda>srcPkg. \<not> clean srcPkg) (root # depPkgs))
           @ [''Applied rules to ''
              @ showNat (length (filter (\<lambda>srcPkg. \<not> clean srcPkg) (root # depPkgs)))
              @ '' packages'']"
proof -
  let ?dirty = "filter (\<lambda>srcPkg. \<not> clean srcPkg) (root # depPkgs)"
  obtain res w1 where m: "mapPackages (processPackage prj) ?dirty w = (res, w1)"
    by (cases "mapPackages (processPackage prj) ?dirty w")
  from assms(2) m obtain rs where rs: "res = Inr rs"
    by (cases res) (auto simp: runRules_def Let_def)
  from assms(2) m rs obtain vs where vs: "promiseAll rs = Resolved vs"
    and w': "w' = w1\<lparr>debugLog := debugLog w1 @ [appliedMessage (length ?dirty)]\<rparr>"
    by (cases "promiseAll rs") (auto simp: runRules_def Let_def)
  from mapPackages_resolved [OF assms(1) _ vs] m rs
  have w1: "lookups w1 = lookups w @
           concat (map (\<lambda>srcPkg. map (\<lambda>f. pathJoin prj [projectDir prj, f])
                                   (prjSrcFiles prj srcPkg)) ?dirty)
     \<and> debugLog w1 = debugLog w @ map (\<lambda>srcPkg. applyingMessage (pkgId srcPkg)) ?dirty"
    by simp
  from w1 w' have "mset (lookups w') = mset (lookups w) +
           mset (concat (map (\<lambda>srcPkg. map (\<lambda>f. pathJoin prj [projectDir prj, f])
                                         (prjSrcFiles prj srcPkg)) ?dirty))"
    by simp
  moreover from w1 w' have "debugLog w' = debugLog w @
           map (\<lambda>srcPkg. applyingMessage (pkgId srcPkg)) ?dirty
           @ [''Applied rules to '' @ showNat (length ?dirty) @ '' packages'']"
    by (simp add: appliedMessage_def)
  ultimately show ?thesis by (rule conjI)
qed

lemma serialRunner_world:
  "snd (serialRunner items n i operation w) = attemptAll operation items w"
proof (induction items arbitrary: w)
  case Nil
  show ?case by (simp add: attemptAll_def)
next
  case (Cons item items)
  obtain r w1 where op: "operation item w = (r, w1)" by (cases "operation item w")
  obtain q w2 where rest: "serialRunner items n i operation w1 = (q, w2)"
    by (cases "serialRunner items n i operation w1")
  from Cons.IH [of w1] rest have "w2 = attemptAll operation items w1" by simp
  with op rest show ?case by (simp add: attemptAll_def)
qed

lemma serialRunner_attemptsEveryItem: "attemptsEveryItem serialRunner"
  unfolding attemptsEveryItem_def
  by (metis serialRunner_world snd_conv)


lemma demo_run:
  "runRules demoProject demoRootPkg [demoCleanPkg, demoDepPkg] emptyWorld =
     (Resolved (),
      \<lparr>fsops = [EnsureDir ''/prj/build'', WriteFile ''/prj/build/index.js'' (Str ''hello!''),
                EnsureDir ''/prj/build'', WriteFile ''/prj/build/foo.txt'' (Str ''bar'')],
       reports = [(''src/index.js'',
                   [(Info, ''liferay-npm-bundler'', ''Rules generated extra artifact: foo.txt'')])],
       debugLog = [applyingMessage ''app@1.0.0'', applyingMessage ''dep@2.0.0'',
                   ''Applied rules to 2 packages''],
       lookups = [''/prj/src/index.js'', ''/prj/src/readme.txt'',
                  ''/prj/node_modules/dep/lib/x.js'']\<rparr>)"
  by (simp add: runRules_def processPackage_def processFile_def prjSrcFiles_def sourceGlobs_def
      demoProject_def demoRootPkg_def demoCleanPkg_def demoDepPkg_def emptyWorld_def clone_def Let_def
      runLoaders.simps appendLoader_def artifactLoader_def writeLoadersResult_eq writeOps_def
      ruleFilePath_def rootFilePath_def depFilePath_def pkgRelative_def slashDirname_def
      appliedMessage_def showNat.simps digitChar_def)


theorem runRules_dirty_packages_witness:
  "mset (lookups (snd (runRules demoProject demoRootPkg [demoCleanPkg, demoDepPkg] emptyWorld))) =
     mset [''/prj/src/index.js'', ''/prj/src/readme.txt'', ''/prj/node_modules/dep/lib/x.js'']
   \<and> debugLog (snd (runRules demoProject demoRootPkg [demoCleanPkg, demoDepPkg] emptyWorld)) =
     [applyingMessage ''app@1.0.0'', applyingMessage ''dep@2.0.0'',
      ''Applied rules to 2 packages'']"
proof -
  have runner: "attemptsEveryItem (runInChunks demoProject)"
    by (simp add: demoProject_def serialRunner_attemptsEveryItem)
  from runRules_dirty_packages [OF runner demo_run]
  show ?thesis
    by (simp add: demo_run)
qed

end
